theory Spec2Isabelle
  imports Complex_Main "HOL-Library.Sublist" "HOL-Library.Word" "HOL-Library.Multiset"
begin

section \<open>Errors\<close>

text \<open>
  Go functions of the backend return \<open>(value, error)\<close>. The model returns
  \<open>error + value\<close>, with \<open>Inl\<close> for a non-nil error. \<open>errors_New\<close> carries the
  message given to \<open>errors.New\<close>, \<open>ErrNoDocuments\<close> is the driver's
  \<open>mongo.ErrNoDocuments\<close> (a \<open>FindOne\<close> whose filter matches nothing, reported by
  \<open>Decode\<close>), \<open>ErrInvalidHex\<close> is what \<open>primitive.ObjectIDFromHex\<close> answers to a
  string that is not 24 hexadecimal digits, and \<open>runtime_panic\<close> is an index out of
  range.
\<close>

datatype error = errors_New string | ErrNoDocuments | ErrInvalidHex | runtime_panic

section \<open>Package strings: Index, Contains, Split\<close>

text \<open>
  A Go string is a sequence of bytes; \<open>string\<close> is \<open>char list\<close> with \<open>char\<close> a byte.
  \<open>Index s substr\<close> is the position of the first occurrence of \<open>substr\<close> in \<open>s\<close>
  (\<open>None\<close> for Go's \<open>-1\<close>).
\<close>

fun Index :: "string \<Rightarrow> string \<Rightarrow> nat option" where
  "Index [] substr = (if substr = [] then Some 0 else None)"
| "Index (c # cs) substr =
     (if prefix substr (c # cs) then Some 0 else map_option Suc (Index cs substr))"

definition Contains :: "string \<Rightarrow> string \<Rightarrow> bool" where
  "Contains s substr = (Index s substr \<noteq> None)"

lemma Index_bound: "Index s sep = Some m \<Longrightarrow> m + length sep \<le> length s"
proof (induction s arbitrary: m)
  case Nil
  then show ?case by (simp split: if_splits)
next
  case (Cons c cs)
  show ?case
  proof (cases "prefix sep (c # cs)")
    case True
    with Cons.prems prefix_length_le [of sep "c # cs"] show ?thesis by simp
  next
    case False
    with Cons.prems obtain k where "Index cs sep = Some k" "m = Suc k" by auto
    with Cons.IH show ?thesis by fastforce
  qed
qed

text \<open>
  \<open>strings.Split(s, sep)\<close> is \<open>genSplit(s, sep, 0, -1)\<close>: cut at every occurrence of
  \<open>sep\<close>, left to right, and end with the remainder. With an empty separator Go
  explodes the string into its UTF-8 sequences; the model explodes it into bytes, which
  is the same on ASCII text (no caller modelled here passes an empty separator).
\<close>

function Split :: "string \<Rightarrow> string \<Rightarrow> string list" where
  "Split s sep =
     (if sep = [] then map (\<lambda>c. [c]) s
      else (case Index s sep of
              None \<Rightarrow> [s]
            | Some m \<Rightarrow> take m s # Split (drop (m + length sep) s) sep))"
  by pat_completeness auto
termination
proof (relation "measure (\<lambda>(s, sep). length s)")
  show "wf (measure (\<lambda>(s, sep). length s))" by simp
next
  fix s sep :: string and m :: nat
  assume "sep \<noteq> []" and "Index s sep = Some m"
  then have "m + length sep \<le> length s" "0 < length sep"
    by (simp_all add: Index_bound)
  then have "length s - (m + length sep) < length s"
    by arith
  then show "((drop (m + length sep) s, sep), (s, sep)) \<in> measure (\<lambda>(s, sep). length s)"
    by simp
qed

declare Split.simps [simp del]

section \<open>GetEmailDomain\<close>

text \<open>
  \<^verbatim>\<open>
  func GetEmailDomain(email string) (string, error) {
      if !strings.Contains(email, "@") { return "", errors.New("invalid email address") }
      domain := strings.Split(email, "@")[1]
      if domain == "" { return "", errors.New("invalid email address") }
      return domain, nil
  }
  \<close>
  The index expression \<open>[1]\<close> panics on a slice of fewer than two elements; the model
  keeps that branch.
\<close>

definition GetEmailDomain :: "string \<Rightarrow> error + string" where
  "GetEmailDomain email =
     (if \<not> Contains email ''@'' then Inl (errors_New ''invalid email address'')
      else (case Split email ''@'' of
              _ # domain # _ \<Rightarrow>
                (if domain = [] then Inl (errors_New ''invalid email address'')
                 else Inr domain)
            | _ \<Rightarrow> Inl runtime_panic))"

text \<open>
  The segment the documentation of the function speaks of, written independently of
  \<open>Split\<close>: what stands between the first \<open>@\<close> and the next one (or the end).
\<close>

definition not_at :: "char \<Rightarrow> bool" where
  "not_at c = (c \<noteq> CHR ''@'')"

definition domain_segment :: "string \<Rightarrow> string" where
  "domain_segment email = takeWhile not_at (drop 1 (dropWhile not_at email))"

section \<open>The document store\<close>

text \<open>
  The backend keeps its state in MongoDB collections and talks to them with
  \<open>bson.M\<close> filters and update documents. The model keeps that shape: a document is a
  finite map from field names to BSON values, a collection is the list of its documents
  in storage order, a filter is a term of the operators the modelled code uses
  (\<open>{f: v}\<close>, \<open>$ne\<close>, \<open>$gte\<close>, \<open>$and\<close>), an update is \<open>$set\<close>,
  \<open>$setOnInsert\<close> or \<open>$inc\<close>.

  A Go struct decoded from a document (\<open>database.Task\<close>, \<open>database.Note\<close>, ...) is
  represented by the document itself: a nil pointer field, a \<open>NilObjectID\<close> or another
  zero value is an absent key. Driver and network failures of the store are not part of
  the model: every store operation answers.
\<close>

type_synonym ObjectID = nat

definition NilObjectID :: ObjectID where
  "NilObjectID = 0"

datatype bval =
    BObjectID ObjectID
  | BString string
  | BInt int
  | BBool bool
  | BDouble real
  | BDateTime int
  | BArray "bval list"
  | BDocument "string \<Rightarrow> bval option"
  | BNull

type_synonym document = "string \<rightharpoonup> bval"
type_synonym collection = "document list"

datatype query =
    QEq string bval
  | QNe string bval
  | QGte string bval
  | QAnd "query list"

text \<open>
  \<open>{f: v}\<close> matches a document whose field \<open>f\<close> is \<open>v\<close>, or is an array holding
  \<open>v\<close>, or is missing when \<open>v\<close> is null. \<open>$ne\<close> is its negation, so it also matches
  a document without the field. \<open>$gte\<close> compares values of the same kind only;
  the modelled filters use it on integers and on dates.
\<close>

fun eq_match :: "bval option \<Rightarrow> bval \<Rightarrow> bool" where
  "eq_match None v = (v = BNull)"
| "eq_match (Some (BArray xs)) v = (v = BArray xs \<or> v \<in> set xs)"
| "eq_match (Some w) v = (w = v)"

fun gte_match :: "bval option \<Rightarrow> bval \<Rightarrow> bool" where
  "gte_match (Some (BInt a)) (BInt b) = (b \<le> a)"
| "gte_match (Some (BDateTime a)) (BDateTime b) = (b \<le> a)"
| "gte_match (Some (BArray xs)) v = list_ex (\<lambda>x. gte_match (Some x) v) xs"
| "gte_match _ _ = False"

fun matches :: "query \<Rightarrow> document \<Rightarrow> bool" where
  "matches (QEq f v) d = eq_match (d f) v"
| "matches (QNe f v) d = (\<not> eq_match (d f) v)"
| "matches (QGte f v) d = gte_match (d f) v"
| "matches (QAnd qs) d = list_all (\<lambda>q. matches q d) qs"

datatype update =
    USet document
  | USetOnInsert document
  | UInc string int

text \<open>
  An update applied to a stored document. \<open>$setOnInsert\<close> changes nothing on a document
  that exists. \<open>$inc\<close> adds to an integer field and creates a missing one; the server
  refuses it on a field of another kind, which the modelled callers exclude by
  filtering on \<open>$gte\<close> of the same field, and the model leaves such a document as it
  is.
\<close>

fun apply_update :: "update \<Rightarrow> document \<Rightarrow> document" where
  "apply_update (USet fields) d = d ++ fields"
| "apply_update (USetOnInsert fields) d = d"
| "apply_update (UInc f n) d =
     (case d f of
        None \<Rightarrow> d(f \<mapsto> BInt n)
      | Some (BInt m) \<Rightarrow> d(f \<mapsto> BInt (m + n))
      | Some _ \<Rightarrow> d)"

text \<open>
  An upsert that matches nothing inserts a document made of the equality clauses of
  the filter, a generated \<open>_id\<close>, and the fields of the update.
\<close>

fun seed :: "query \<Rightarrow> document" where
  "seed (QEq f v) = [f \<mapsto> v]"
| "seed (QNe f v) = Map.empty"
| "seed (QGte f v) = Map.empty"
| "seed (QAnd qs) = foldl (\<lambda>d q. d ++ seed q) Map.empty qs"

fun apply_insert :: "update \<Rightarrow> document \<Rightarrow> document" where
  "apply_insert (USet fields) d = d ++ fields"
| "apply_insert (USetOnInsert fields) d = d ++ fields"
| "apply_insert (UInc f n) d = d(f \<mapsto> BInt n)"

text \<open>
  The generated \<open>_id\<close> is an ObjectID no document of the collection has, and never
  the nil one.
\<close>

fun oid_of :: "bval option \<Rightarrow> ObjectID" where
  "oid_of (Some (BObjectID i)) = i"
| "oid_of _ = NilObjectID"

definition NewObjectID :: "collection \<Rightarrow> ObjectID" where
  "NewObjectID coll = Suc (foldr (\<lambda>d m. max (oid_of (d ''_id'')) m) coll 0)"

definition upsert_document :: "query \<Rightarrow> update \<Rightarrow> collection \<Rightarrow> document" where
  "upsert_document q u coll =
     (let d = apply_insert u (seed q)
      in (case d ''_id'' of
            None \<Rightarrow> d(''_id'' \<mapsto> BObjectID (NewObjectID coll))
          | Some _ \<Rightarrow> d))"

definition FindOne :: "collection \<Rightarrow> query \<Rightarrow> document option" where
  "FindOne coll q = List.find (matches q) coll"

text \<open>\<open>Decode\<close> of a \<open>SingleResult\<close>: no document is \<open>mongo.ErrNoDocuments\<close>.\<close>

definition Decode :: "document option \<Rightarrow> error + document" where
  "Decode r = (case r of None \<Rightarrow> Inl ErrNoDocuments | Some d \<Rightarrow> Inr d)"

text \<open>
  \<open>UpdateOne\<close> changes the first document that matches and reports
  \<open>MatchedCount\<close>; \<open>UpdateMany\<close> changes every document that matches.
\<close>

fun update_first :: "query \<Rightarrow> update \<Rightarrow> collection \<Rightarrow> collection" where
  "update_first q u [] = []"
| "update_first q u (d # ds) =
     (if matches q d then apply_update u d # ds else d # update_first q u ds)"

definition UpdateOne :: "collection \<Rightarrow> query \<Rightarrow> update \<Rightarrow> nat \<times> collection" where
  "UpdateOne coll q u =
     (if list_ex (matches q) coll then (1, update_first q u coll) else (0, coll))"

definition UpdateOne_upsert :: "collection \<Rightarrow> query \<Rightarrow> update \<Rightarrow> collection" where
  "UpdateOne_upsert coll q u =
     (if list_ex (matches q) coll then update_first q u coll
      else coll @ [upsert_document q u coll])"

definition UpdateMany :: "collection \<Rightarrow> query \<Rightarrow> update \<Rightarrow> collection" where
  "UpdateMany coll q u = map (\<lambda>d. if matches q d then apply_update u d else d) coll"

text \<open>
  \<open>FindOneAndUpdate\<close> with \<open>SetUpsert(true)\<close> and
  \<open>SetReturnDocument(options.After)\<close>: the new collection and the document as it is
  after the update.
\<close>

definition FindOneAndUpdate_upsert ::
  "collection \<Rightarrow> query \<Rightarrow> update \<Rightarrow> collection \<times> document option" where
  "FindOneAndUpdate_upsert coll q u =
     (case List.find (matches q) coll of
        Some d \<Rightarrow> (update_first q u coll, Some (apply_update u d))
      | None \<Rightarrow> (coll @ [upsert_document q u coll], Some (upsert_document q u coll)))"

text \<open>
  \<open>Find\<close> with \<open>SetSort(bson.M{"id_ordering": 1})\<close>. A document without an integer
  \<open>id_ordering\<close> sorts first. The server leaves the order of equal keys open; the
  model takes the stable order (storage order among equal keys).
\<close>

fun int_of :: "bval option \<Rightarrow> int option" where
  "int_of (Some (BInt n)) = Some n"
| "int_of _ = None"

definition Find_sorted :: "collection \<Rightarrow> query \<Rightarrow> string \<Rightarrow> collection" where
  "Find_sorted coll q f =
     (let found = filter (matches q) coll
      in filter (\<lambda>d. int_of (d f) = None) found
         @ sort_key (\<lambda>d. the (int_of (d f))) (filter (\<lambda>d. int_of (d f) \<noteq> None) found))"

text \<open>
  The server gives every document an \<open>_id\<close> (an ObjectID in these collections) and
  keeps it unique within a collection.
\<close>

definition ids_unique :: "collection \<Rightarrow> bool" where
  "ids_unique coll =
     (distinct (map (\<lambda>d. oid_of (d ''_id'')) coll)
      \<and> list_all (\<lambda>d. d ''_id'' = Some (BObjectID (oid_of (d ''_id'')))) coll)"

record DB =
  task_collection :: collection
  note_collection :: collection
  user_collection :: collection
  calendar_event_collection :: collection
  pull_request_collection :: collection

definition GetTaskCollection :: "DB \<Rightarrow> collection" where
  "GetTaskCollection db = task_collection db"

definition GetNoteCollection :: "DB \<Rightarrow> collection" where
  "GetNoteCollection db = note_collection db"

definition GetUserCollection :: "DB \<Rightarrow> collection" where
  "GetUserCollection db = user_collection db"

definition GetCalendarEventCollection :: "DB \<Rightarrow> collection" where
  "GetCalendarEventCollection db = calendar_event_collection db"

definition GetPullRequestCollection :: "DB \<Rightarrow> collection" where
  "GetPullRequestCollection db = pull_request_collection db"

section \<open>Shared access\<close>

text \<open>
  Modelled from the spec: the declaration of \<open>database.SharedAccess\<close> and of its
  constants is not among the sources. The glossary names the three modes \<open>domain\<close>,
  \<open>public\<close> and \<open>meeting_attendees\<close>; the code compares values of the type with
  \<open>==\<close> and takes their address, so it is a scalar type with three distinct named
  values. Only their distinctness is used below.
\<close>

type_synonym SharedAccess = int

definition SharedAccessPublic :: SharedAccess where
  "SharedAccessPublic = 0"

definition SharedAccessDomain :: SharedAccess where
  "SharedAccessDomain = 1"

definition SharedAccessMeetingAttendees :: SharedAccess where
  "SharedAccessMeetingAttendees = 2"

text \<open>
  \<^verbatim>\<open>
  func CheckNoteSharingAccessValid(sharedAccess *SharedAccess) bool {
      if sharedAccess == nil {
          // want backwards compatibility
          return true
      } else if *sharedAccess != SharedAccessMeetingAttendees &&
                *sharedAccess != SharedAccessDomain && *sharedAccess != SharedAccessPublic {
          return false
      }
      return true
  }
  func CheckTaskSharingAccessValid(sharedAccess SharedAccess) bool {
      return sharedAccess == SharedAccessDomain || sharedAccess == SharedAccessPublic
  }
  \<close>
\<close>

definition CheckNoteSharingAccessValid :: "SharedAccess option \<Rightarrow> bool" where
  "CheckNoteSharingAccessValid sharedAccess =
     (case sharedAccess of
        None \<Rightarrow> True
      | Some a \<Rightarrow>
          (if a \<noteq> SharedAccessMeetingAttendees \<and> a \<noteq> SharedAccessDomain
              \<and> a \<noteq> SharedAccessPublic
           then False else True))"

definition CheckTaskSharingAccessValid :: "SharedAccess \<Rightarrow> bool" where
  "CheckTaskSharingAccessValid sharedAccess =
     (sharedAccess = SharedAccessDomain \<or> sharedAccess = SharedAccessPublic)"

section \<open>Struct fields read from documents\<close>

text \<open>
  The fields of the decoded structs that the modelled functions read, under the names
  the Go code selects them by. The BSON keys \<open>_id\<close>, \<open>user_id\<close>, \<open>email\<close>,
  \<open>shared_access\<close>, \<open>id_ordering\<close>, \<open>id_task_section\<close>, \<open>parent_task_id\<close>,
  \<open>is_completed\<close>, \<open>id_external\<close> and \<open>source_id\<close> are those of the filters and
  struct tags in the sources; the struct declarations themselves are not among them, and
  \<open>linked_event_id\<close>, \<open>attendee_emails\<close> and \<open>last_fetched\<close> follow the same
  convention (nothing proved below depends on the spelling of a key).
\<close>

fun string_of :: "bval option \<Rightarrow> string" where
  "string_of (Some (BString s)) = s"
| "string_of _ = []"

fun bool_of :: "bval option \<Rightarrow> bool option" where
  "bool_of (Some (BBool b)) = Some b"
| "bool_of _ = None"

fun datetime_of :: "bval option \<Rightarrow> int" where
  "datetime_of (Some (BDateTime t)) = t"
| "datetime_of _ = 0"

definition ID_of :: "document \<Rightarrow> ObjectID" where
  "ID_of d = oid_of (d ''_id'')"

definition UserID_of :: "document \<Rightarrow> ObjectID" where
  "UserID_of d = oid_of (d ''user_id'')"

definition Email_of :: "document \<Rightarrow> string" where
  "Email_of d = string_of (d ''email'')"

definition SharedAccess_of :: "document \<Rightarrow> SharedAccess option" where
  "SharedAccess_of d = int_of (d ''shared_access'')"

definition LinkedEventID_of :: "document \<Rightarrow> ObjectID" where
  "LinkedEventID_of d = oid_of (d ''linked_event_id'')"

definition AttendeeEmails_of :: "document \<Rightarrow> string list" where
  "AttendeeEmails_of d =
     (case d ''attendee_emails'' of
        Some (BArray xs) \<Rightarrow> map (\<lambda>x. string_of (Some x)) xs
      | _ \<Rightarrow> [])"

section \<open>Users and shared items\<close>

text \<open>
  \<^verbatim>\<open>
  func GetUser(db *mongo.Database, userID primitive.ObjectID) (*User, error) {
      var userObject User
      err := GetUserCollection(db).FindOne(ctx, bson.M{"_id": userID}).Decode(&userObject)
      if err != nil { return nil, err }
      return &userObject, nil
  }
  \<close>
\<close>

definition GetUser :: "DB \<Rightarrow> ObjectID \<Rightarrow> error + document" where
  "GetUser db userID =
     Decode (FindOne (GetUserCollection db) (QEq ''_id'' (BObjectID userID)))"

text \<open>
  The filter the three shared-item fetches share; \<open>now\<close> is the value of
  \<open>time.Now()\<close> at the call.
  \<^verbatim>\<open>
  bson.M{"$and": []bson.M{
      {"_id": itemID},
      {"shared_until": bson.M{"$gte": time.Now()}},
      {"is_deleted": bson.M{"$ne": true}},
  }}
  \<close>
\<close>

definition shared_item_query :: "ObjectID \<Rightarrow> int \<Rightarrow> query" where
  "shared_item_query itemID now =
     QAnd [QEq ''_id'' (BObjectID itemID),
           QGte ''shared_until'' (BDateTime now),
           QNe ''is_deleted'' (BBool True)]"

text \<open>
  \<open>GetSharedTask(db, taskID, userID)\<close>, with \<open>userID\<close> a pointer that is nil for a
  requester who is not logged in. The checks follow the source in order: the lookup,
  task not shared, invalid shared access value, and for the domain mode: no user, the
  requester, the owner, the requester's domain, the owner's domain, their equality.
\<close>

definition GetSharedTask ::
  "DB \<Rightarrow> int \<Rightarrow> ObjectID \<Rightarrow> ObjectID option \<Rightarrow> error + document" where
  "GetSharedTask db now taskID userID =
     (case Decode (FindOne (GetTaskCollection db) (shared_item_query taskID now)) of
        Inl err \<Rightarrow> Inl err
      | Inr task \<Rightarrow>
          (case SharedAccess_of task of
             None \<Rightarrow> Inl (errors_New ''task is not shared'')
           | Some access \<Rightarrow>
               if access \<noteq> SharedAccessDomain \<and> access \<noteq> SharedAccessPublic
               then Inl (errors_New ''invalid shared access value'')
               else if access = SharedAccessDomain then
                 (case userID of
                    None \<Rightarrow> Inl (errors_New ''user is not allowed to access this task'')
                  | Some uid \<Rightarrow>
                      (case GetUser db uid of
                         Inl err \<Rightarrow> Inl err
                       | Inr user \<Rightarrow>
                           (case GetUser db (UserID_of task) of
                              Inl err \<Rightarrow> Inl err
                            | Inr taskOwner \<Rightarrow>
                                (case GetEmailDomain (Email_of user) of
                                   Inl err \<Rightarrow> Inl err
                                 | Inr userDomain \<Rightarrow>
                                     (case GetEmailDomain (Email_of taskOwner) of
                                        Inl err \<Rightarrow> Inl err
                                      | Inr taskOwnerDomain \<Rightarrow>
                                          if userDomain \<noteq> taskOwnerDomain
                                          then Inl (errors_New
                                            ''user domain does not match task owner domain'')
                                          else Inr task)))))
               else Inr task))"

text \<open>
  \<^verbatim>\<open>
  func GetSharedNote(db *mongo.Database, itemID primitive.ObjectID) (*Note, error) {
      ... FindOne with the filter above, Decode ...
      if note.SharedAccess != nil && *note.SharedAccess != SharedAccessPublic {
          return nil, errors.New("unable to fetch note without auth")
      }
      return &note, nil
  }
  \<close>
\<close>

definition GetSharedNote :: "DB \<Rightarrow> int \<Rightarrow> ObjectID \<Rightarrow> error + document" where
  "GetSharedNote db now itemID =
     (case Decode (FindOne (GetNoteCollection db) (shared_item_query itemID now)) of
        Inl err \<Rightarrow> Inl err
      | Inr note \<Rightarrow>
          if SharedAccess_of note \<noteq> None \<and> SharedAccess_of note \<noteq> Some SharedAccessPublic
          then Inl (errors_New ''unable to fetch note without auth'')
          else Inr note)"

text \<open>
  \<open>GetSharedNoteWithAuth(db, itemID, userID)\<close>. A note that is public, has no shared
  access or belongs to the requester is returned at once; otherwise the mode decides:
  same email domain, or the requester's email among the attendees of the linked event.
\<close>

definition GetSharedNoteWithAuth ::
  "DB \<Rightarrow> int \<Rightarrow> ObjectID \<Rightarrow> ObjectID \<Rightarrow> error + document" where
  "GetSharedNoteWithAuth db now itemID userID =
     (case Decode (FindOne (GetNoteCollection db) (shared_item_query itemID now)) of
        Inl err \<Rightarrow> Inl err
      | Inr note \<Rightarrow>
          if SharedAccess_of note \<noteq> None \<and> SharedAccess_of note \<noteq> Some SharedAccessPublic
             \<and> UserID_of note \<noteq> userID
          then
            if \<not> CheckNoteSharingAccessValid (SharedAccess_of note)
            then Inl (errors_New ''invalid shared access value'')
            else
              (case GetUser db userID of
                 Inl err \<Rightarrow> Inl err
               | Inr user \<Rightarrow>
                   if SharedAccess_of note = Some SharedAccessDomain then
                     (case GetUser db (UserID_of note) of
                        Inl err \<Rightarrow> Inl err
                      | Inr noteOwner \<Rightarrow>
                          (case GetEmailDomain (Email_of user) of
                             Inl err \<Rightarrow> Inl err
                           | Inr userDomain \<Rightarrow>
                               (case GetEmailDomain (Email_of noteOwner) of
                                  Inl err \<Rightarrow> Inl err
                                | Inr noteOwnerDomain \<Rightarrow>
                                    if userDomain \<noteq> noteOwnerDomain
                                    then Inl (errors_New
                                      ''user domain does not match note owner domain'')
                                    else Inr note)))
                   else if SharedAccess_of note = Some SharedAccessMeetingAttendees then
                     if LinkedEventID_of note = NilObjectID
                     then Inl (errors_New
                       ''linked event required for note's shared access type'')
                     else
                       (case Decode (FindOne (GetCalendarEventCollection db)
                                (QAnd [QEq ''_id'' (BObjectID (LinkedEventID_of note))])) of
                          Inl err \<Rightarrow> Inl err
                        | Inr event \<Rightarrow>
                            if list_ex (\<lambda>attendeeEmail. Email_of user = attendeeEmail)
                                 (AttendeeEmails_of event)
                            then Inr note
                            else Inl (errors_New ''user not found in list of attendees''))
                   else Inr note)
          else Inr note)"

section \<open>Ordering identifiers: AdjustOrderingIDsForCollection\<close>

text \<open>
  More struct fields read from documents. \<open>IDOrdering\<close> is a Go \<open>int\<close>, zero when
  the document has none.
\<close>

definition IDOrdering_of :: "document \<Rightarrow> int" where
  "IDOrdering_of d = (case int_of (d ''id_ordering'') of None \<Rightarrow> 0 | Some n \<Rightarrow> n)"


definition SourceAccountID_of :: "document \<Rightarrow> string" where
  "SourceAccountID_of d = string_of (d ''source_account_id'')"


definition IsDeleted_of :: "document \<Rightarrow> bool option" where
  "IsDeleted_of d = bool_of (d ''is_deleted'')"

definition IsCompleted_of :: "document \<Rightarrow> bool option" where
  "IsCompleted_of d = bool_of (d ''is_completed'')"

definition ParentTaskID_of :: "document \<Rightarrow> ObjectID" where
  "ParentTaskID_of d = oid_of (d ''parent_task_id'')"

definition IDTaskSection_of :: "document \<Rightarrow> ObjectID" where
  "IDTaskSection_of d = oid_of (d ''id_task_section'')"

text \<open>
  \<open>AdjustOrderingIDsForCollection(collection, userID, itemID, orderingID)\<close> first moves
  back by one every other item of the user at or after \<open>orderingID\<close>, then normalizes:
  it reads the user's items sorted by \<open>id_ordering\<close> and walks over them,
  \<^verbatim>\<open>
  for index, item := range items {
      newIDOrdering := index + 1
      if item.IDOrdering != newIDOrdering {
          collection.UpdateOne(ctx,
              bson.M{"$and": []bson.M{{"_id": item.ID}, {"user_id": userID}}},
              bson.M{"$set": bson.M{"id_ordering": newIDOrdering}})
      }
  }
  \<close>
  \<open>items\<close> is read once, before the loop; the loop writes to the collection.
\<close>

fun normalize_ordering_ids ::
  "collection \<Rightarrow> ObjectID \<Rightarrow> nat \<Rightarrow> document list \<Rightarrow> collection" where
  "normalize_ordering_ids collection userID index [] = collection"
| "normalize_ordering_ids collection userID index (item # items) =
     (let newIDOrdering = int index + 1
      in normalize_ordering_ids
           (if IDOrdering_of item \<noteq> newIDOrdering
            then snd (UpdateOne collection
                   (QAnd [QEq ''_id'' (BObjectID (ID_of item)),
                          QEq ''user_id'' (BObjectID userID)])
                   (USet [''id_ordering'' \<mapsto> BInt newIDOrdering]))
            else collection)
           userID (Suc index) items)"

definition user_items_sorted :: "collection \<Rightarrow> ObjectID \<Rightarrow> document list" where
  "user_items_sorted collection userID =
     Find_sorted collection (QEq ''user_id'' (BObjectID userID)) ''id_ordering''"

definition AdjustOrderingIDsForCollection ::
  "collection \<Rightarrow> ObjectID \<Rightarrow> ObjectID \<Rightarrow> int \<Rightarrow> collection" where
  "AdjustOrderingIDsForCollection collection userID itemID orderingID =
     (let moved = UpdateMany collection
            (QAnd [QNe ''_id'' (BObjectID itemID),
                   QEq ''user_id'' (BObjectID userID),
                   QGte ''id_ordering'' (BInt orderingID)])
            (UInc ''id_ordering'' 1)
      in normalize_ordering_ids moved userID 0 (user_items_sorted moved userID))"

section \<open>Reordering a task: ReOrderTask\<close>

datatype response = JSON nat string | Handle404 | Handle500

fun hex_digit :: "char \<Rightarrow> nat option" where
  "hex_digit c =
     map_of [(CHR ''0'', 0), (CHR ''1'', 1), (CHR ''2'', 2), (CHR ''3'', 3), (CHR ''4'', 4),
             (CHR ''5'', 5), (CHR ''6'', 6), (CHR ''7'', 7), (CHR ''8'', 8), (CHR ''9'', 9),
             (CHR ''a'', 10), (CHR ''b'', 11), (CHR ''c'', 12), (CHR ''d'', 13),
             (CHR ''e'', 14), (CHR ''f'', 15), (CHR ''A'', 10), (CHR ''B'', 11),
             (CHR ''C'', 12), (CHR ''D'', 13), (CHR ''E'', 14), (CHR ''F'', 15)] c"

fun hex_decode :: "nat \<Rightarrow> string \<Rightarrow> nat option" where
  "hex_decode acc [] = Some acc"
| "hex_decode acc (c # cs) =
     (case hex_digit c of None \<Rightarrow> None | Some v \<Rightarrow> hex_decode (16 * acc + v) cs)"

text \<open>
  \<open>primitive.ObjectIDFromHex\<close>: 24 hexadecimal digits, read as the twelve bytes of the
  identifier (here: the number they write).
\<close>

definition ObjectIDFromHex :: "string \<Rightarrow> error + ObjectID" where
  "ObjectIDFromHex s =
     (if length s \<noteq> 24 then Inl ErrInvalidHex
      else (case hex_decode 0 s of None \<Rightarrow> Inl ErrInvalidHex | Some n \<Rightarrow> Inr n))"





definition reorder_section :: "string option \<Rightarrow> document \<Rightarrow> ObjectID" where
  "reorder_section IDTaskSectionHex task =
     (case IDTaskSectionHex of
        None \<Rightarrow> IDTaskSection_of task
      | Some hex \<Rightarrow> (case ObjectIDFromHex hex of Inl _ \<Rightarrow> NilObjectID | Inr i \<Rightarrow> i))"






section \<open>Reconciliation: getDBQuery and the upserts\<close>

text \<open>
  \<^verbatim>\<open>
  func getDBQuery(userID primitive.ObjectID, IDExternal string, sourceID string,
                  additionalFilters *[]bson.M) primitive.M {
      dbQuery := bson.M{"$and": []bson.M{
          {"id_external": IDExternal}, {"source_id": sourceID}, {"user_id": userID}}}
      if additionalFilters != nil && len(*additionalFilters) > 0 {
          for _, filter := range *additionalFilters {
              dbQuery["$and"] = append(dbQuery["$and"].([]bson.M), filter)
          }
      }
      return dbQuery
  }
  \<close>
  A nil pointer is \<open>None\<close>.
\<close>

definition getDBQuery ::
  "ObjectID \<Rightarrow> string \<Rightarrow> string \<Rightarrow> query list option \<Rightarrow> query" where
  "getDBQuery userID IDExternal sourceID additionalFilters =
     QAnd ([QEq ''id_external'' (BString IDExternal),
            QEq ''source_id'' (BString sourceID),
            QEq ''user_id'' (BObjectID userID)]
           @ (case additionalFilters of None \<Rightarrow> [] | Some filters \<Rightarrow> filters))"

text \<open>
  \<open>FindOneAndUpdateWithCollection\<close>: an upsert with \<open>$setOnInsert\<close> when there are
  fields to insert if missing, then \<open>FindOneAndUpdate\<close> with \<open>$set\<close>, upsert and
  the document returned as it is after the update. \<open>fields\<close> and
  \<open>fieldsToInsertIfMissing\<close> are the BSON documents of the structs the callers pass.
  The result is the collection and the \<open>SingleResult\<close>.
\<close>

definition FindOneAndUpdateWithCollection ::
  "collection \<Rightarrow> ObjectID \<Rightarrow> string \<Rightarrow> string \<Rightarrow> document option \<Rightarrow> document
   \<Rightarrow> query list option \<Rightarrow> collection \<times> document option" where
  "FindOneAndUpdateWithCollection collection userID IDExternal sourceID
       fieldsToInsertIfMissing fields' additionalFilters =
     (let dbQuery = getDBQuery userID IDExternal sourceID additionalFilters;
          inserted = (case fieldsToInsertIfMissing of
                        None \<Rightarrow> collection
                      | Some missing \<Rightarrow>
                          UpdateOne_upsert collection dbQuery (USetOnInsert missing))
      in FindOneAndUpdate_upsert inserted dbQuery (USet fields'))"


text \<open>
  \<open>UpdateOrCreatePullRequest\<close> and \<open>UpdateOrCreateCalendarEvent\<close> pass no fields to
  insert if missing and decode the result; \<open>UpdateOrCreateTask\<close> passes both.
\<close>

definition UpdateOrCreatePullRequest ::
  "DB \<Rightarrow> ObjectID \<Rightarrow> string \<Rightarrow> string \<Rightarrow> document \<Rightarrow> query list option
   \<Rightarrow> DB \<times> (error + document)" where
  "UpdateOrCreatePullRequest db userID IDExternal sourceID fields' additionalFilters =
     (case FindOneAndUpdateWithCollection (GetPullRequestCollection db) userID IDExternal
             sourceID None fields' additionalFilters of
        (collection, mongoResult) \<Rightarrow>
          (db\<lparr>pull_request_collection := collection\<rparr>, Decode mongoResult))"


definition UpdateOrCreateTask ::
  "DB \<Rightarrow> ObjectID \<Rightarrow> string \<Rightarrow> string \<Rightarrow> document option \<Rightarrow> document
   \<Rightarrow> query list option \<Rightarrow> DB \<times> (error + document)" where
  "UpdateOrCreateTask db userID IDExternal sourceID fieldsToInsertIfMissing fieldsToUpdate
       additionalFilters =
     (case FindOneAndUpdateWithCollection (GetTaskCollection db) userID IDExternal sourceID
             fieldsToInsertIfMissing fieldsToUpdate additionalFilters of
        (collection, mongoResult) \<Rightarrow>
          (db\<lparr>task_collection := collection\<rparr>, Decode mongoResult))"

section \<open>Vocabulary of the renumbering properties\<close>

text \<open>
  The position of an element in a list, and what the renumbering is meant to do to one
  document: an item of the list gets its position in the list, counted from one, as its
  \<open>id_ordering\<close>; a document that is not in the list stays as it is.
\<close>

fun index_of :: "'a \<Rightarrow> 'a list \<Rightarrow> nat option" where
  "index_of x [] = None"
| "index_of x (y # ys) = (if x = y then Some 0 else map_option Suc (index_of x ys))"

definition renumbered_from :: "nat \<Rightarrow> document list \<Rightarrow> document \<Rightarrow> document" where
  "renumbered_from n items d =
     (case index_of (ID_of d) (map ID_of items) of
        None \<Rightarrow> d
      | Some i \<Rightarrow> d(''id_ordering'' \<mapsto> BInt (int (n + i) + 1)))"

definition renumbered :: "document list \<Rightarrow> document \<Rightarrow> document" where
  "renumbered items d = renumbered_from 0 items d"

definition consecutive_from_one :: "nat \<Rightarrow> int list" where
  "consecutive_from_one n = map (\<lambda>i. int i + 1) [0..<n]"

section \<open>Vocabulary of the reordering properties\<close>


text \<open>
  The scope of a reordering, read off a document: the user's task, not deleted, and of
  the same parent (for a sub-task) or of the section and not completed (for a top-level
  task).
\<close>

definition in_reorder_scope :: "document \<Rightarrow> ObjectID \<Rightarrow> ObjectID \<Rightarrow> document \<Rightarrow> bool" where
  "in_reorder_scope task section userID d =
     (d ''user_id'' = Some (BObjectID userID)
      \<and> d ''is_deleted'' \<noteq> Some (BBool True)
      \<and> (if ParentTaskID_of task \<noteq> NilObjectID
         then d ''parent_task_id'' = Some (BObjectID (ParentTaskID_of task))
         else d ''id_task_section'' = Some (BObjectID section)
              \<and> d ''is_completed'' \<noteq> Some (BBool True)))"

text \<open>
  What the two writes do to one document: the moved task gets the position (and the
  section, when one is given) and the mark; another task of the scope at or after the
  position moves back by one; every other document stays as it is.
\<close>

definition reordered ::
  "ObjectID \<Rightarrow> ObjectID \<Rightarrow> int \<Rightarrow> string option \<Rightarrow> document \<Rightarrow> document \<Rightarrow> document" where
  "reordered taskID userID k IDTaskSectionHex task d =
     (if ID_of d = taskID
      then (case IDTaskSectionHex of
              None \<Rightarrow> d(''has_been_reordered'' \<mapsto> BBool True, ''id_ordering'' \<mapsto> BInt k)
            | Some hex \<Rightarrow>
                d(''has_been_reordered'' \<mapsto> BBool True, ''id_ordering'' \<mapsto> BInt k,
                  ''id_task_section'' \<mapsto> BObjectID (reorder_section IDTaskSectionHex task)))
      else if in_reorder_scope task (reorder_section IDTaskSectionHex task) userID d
              \<and> d ''id_ordering'' \<noteq> None \<and> k \<le> IDOrdering_of d
      then d(''id_ordering'' \<mapsto> BInt (IDOrdering_of d + 1))
      else d)"


section \<open>Vocabulary of the reconciliation properties\<close>

text \<open>
  A cached record of an external item carries the three keys; \<open>has_keys\<close> says which.
  \<open>keyed_document\<close> is a document whose three keys have the type of their struct
  field, and \<open>key_triple\<close> reads them. A \<open>$set\<close> document respects the keys when it
  leaves them alone or writes the values they have.
\<close>

definition has_keys :: "ObjectID \<Rightarrow> string \<Rightarrow> string \<Rightarrow> document \<Rightarrow> bool" where
  "has_keys userID IDExternal sourceID d =
     (d ''user_id'' = Some (BObjectID userID)
      \<and> d ''source_id'' = Some (BString sourceID)
      \<and> d ''id_external'' = Some (BString IDExternal))"









section \<open>Vocabulary of the sharing properties\<close>

text \<open>
  The email domain of a user of the database, and what it means for a requester to be
  of the owner's domain: the requester is logged in, has a user record whose email has
  a domain, and the owner of the item has a user record with the same domain.
\<close>

definition email_domain_of_user :: "DB \<Rightarrow> ObjectID \<Rightarrow> string option" where
  "email_domain_of_user db uid =
     (case GetUser db uid of
        Inl _ \<Rightarrow> None
      | Inr user \<Rightarrow> (case GetEmailDomain (Email_of user) of Inl _ \<Rightarrow> None | Inr domain \<Rightarrow> Some domain))"

definition same_domain_requester :: "DB \<Rightarrow> ObjectID option \<Rightarrow> document \<Rightarrow> bool" where
  "same_domain_requester db userID item =
     (case userID of
        None \<Rightarrow> False
      | Some uid \<Rightarrow>
          email_domain_of_user db uid \<noteq> None
          \<and> email_domain_of_user db uid = email_domain_of_user db (UserID_of item))"

text \<open>
  A shared item that is out of its sharing window or marked deleted.
\<close>

definition expired_or_deleted :: "int \<Rightarrow> document \<Rightarrow> bool" where
  "expired_or_deleted now item =
     ((case item ''shared_until'' of Some (BDateTime t) \<Rightarrow> t < now | _ \<Rightarrow> False)
      \<or> item ''is_deleted'' = Some (BBool True))"

section \<open>Example data\<close>

text \<open>
  A small database for the sharing properties: Ann and Bob share an email domain, Eve
  has another one; Ann owns a public task, a domain task and a task whose sharing
  window is over, and a deleted note.
\<close>

definition user_ann :: document where
  "user_ann = [''_id'' \<mapsto> BObjectID 101, ''email'' \<mapsto> BString ''ann@acme.io'']"

definition user_bob :: document where
  "user_bob = [''_id'' \<mapsto> BObjectID 102, ''email'' \<mapsto> BString ''bob@acme.io'']"

definition user_eve :: document where
  "user_eve = [''_id'' \<mapsto> BObjectID 103, ''email'' \<mapsto> BString ''eve@other.org'']"

definition task_public :: document where
  "task_public = [''_id'' \<mapsto> BObjectID 10, ''user_id'' \<mapsto> BObjectID 101,
     ''shared_until'' \<mapsto> BDateTime 100, ''shared_access'' \<mapsto> BInt SharedAccessPublic]"

definition task_domain :: document where
  "task_domain = [''_id'' \<mapsto> BObjectID 11, ''user_id'' \<mapsto> BObjectID 101,
     ''shared_until'' \<mapsto> BDateTime 100, ''shared_access'' \<mapsto> BInt SharedAccessDomain]"

definition task_expired :: document where
  "task_expired = [''_id'' \<mapsto> BObjectID 12, ''user_id'' \<mapsto> BObjectID 101,
     ''shared_until'' \<mapsto> BDateTime 5, ''shared_access'' \<mapsto> BInt SharedAccessPublic]"

definition note_deleted :: document where
  "note_deleted = [''_id'' \<mapsto> BObjectID 20, ''user_id'' \<mapsto> BObjectID 101,
     ''shared_until'' \<mapsto> BDateTime 100, ''is_deleted'' \<mapsto> BBool True]"

definition sharing_db :: DB where
  "sharing_db = \<lparr>task_collection = [task_public, task_domain, task_expired],
     note_collection = [note_deleted],
     user_collection = [user_ann, user_bob, user_eve],
     calendar_event_collection = [],
     pull_request_collection = []\<rparr>"

text \<open>
  Tasks for the reordering properties: three tasks of Ann in one section, in the order
  a, b, c, and a task of Bob in the same section.
\<close>

definition task_a :: document where
  "task_a = [''_id'' \<mapsto> BObjectID 30, ''user_id'' \<mapsto> BObjectID 101,
     ''id_task_section'' \<mapsto> BObjectID 7, ''id_ordering'' \<mapsto> BInt 1]"

definition task_b :: document where
  "task_b = [''_id'' \<mapsto> BObjectID 31, ''user_id'' \<mapsto> BObjectID 101,
     ''id_task_section'' \<mapsto> BObjectID 7, ''id_ordering'' \<mapsto> BInt 2]"

definition task_c :: document where
  "task_c = [''_id'' \<mapsto> BObjectID 32, ''user_id'' \<mapsto> BObjectID 101,
     ''id_task_section'' \<mapsto> BObjectID 7, ''id_ordering'' \<mapsto> BInt 3]"

definition task_of_bob :: document where
  "task_of_bob = [''_id'' \<mapsto> BObjectID 33, ''user_id'' \<mapsto> BObjectID 102,
     ''id_task_section'' \<mapsto> BObjectID 7, ''id_ordering'' \<mapsto> BInt 3]"

definition reorder_db :: DB where
  "reorder_db = \<lparr>task_collection = [task_a, task_b, task_c, task_of_bob],
     note_collection = [], user_collection = [], calendar_event_collection = [],
     pull_request_collection = []\<rparr>"

text \<open>
  A collection of views for the renumbering properties: three views of Ann at the
  positions 5, 2 and 9, and one of Bob.
\<close>

definition view_1 :: document where
  "view_1 = [''_id'' \<mapsto> BObjectID 40, ''user_id'' \<mapsto> BObjectID 101, ''id_ordering'' \<mapsto> BInt 5]"

definition view_2 :: document where
  "view_2 = [''_id'' \<mapsto> BObjectID 41, ''user_id'' \<mapsto> BObjectID 101, ''id_ordering'' \<mapsto> BInt 2]"

definition view_3 :: document where
  "view_3 = [''_id'' \<mapsto> BObjectID 42, ''user_id'' \<mapsto> BObjectID 102, ''id_ordering'' \<mapsto> BInt 7]"

definition view_4 :: document where
  "view_4 = [''_id'' \<mapsto> BObjectID 43, ''user_id'' \<mapsto> BObjectID 101, ''id_ordering'' \<mapsto> BInt 9]"

definition view_collection :: collection where
  "view_collection = [view_1, view_2, view_3, view_4]"



section \<open>Properties of GetEmailDomain\<close>

lemma Index_at_None: "(Index s ''@'' = None) = (CHR ''@'' \<notin> set s)"
  by (induction s) auto

lemma Index_at_Some:
  "CHR ''@'' \<in> set s \<Longrightarrow> Index s ''@'' = Some (length (takeWhile not_at s))"
  by (induction s) (auto simp: not_at_def)

lemma Split_at_no_at: "CHR ''@'' \<notin> set s \<Longrightarrow> Split s ''@'' = [s]"
  using Index_at_None [of s] by (simp add: Split.simps [of s])

lemma Split_at_step:
  "CHR ''@'' \<in> set s \<Longrightarrow>
   Split s ''@'' = takeWhile not_at s # Split (drop 1 (dropWhile not_at s)) ''@''"
proof -
  assume a: "CHR ''@'' \<in> set s"
  have d: "drop (length (takeWhile not_at s) + 1) s = drop 1 (dropWhile not_at s)"
    by (metis add.commute drop_drop dropWhile_eq_drop)
  have t: "take (length (takeWhile not_at s)) s = takeWhile not_at s"
    by (metis takeWhile_eq_take)
  show ?thesis
    using Index_at_Some [OF a] d t by (simp add: Split.simps [of s])
qed

lemma Split_at_hd: "\<exists>rest. Split s ''@'' = takeWhile not_at s # rest"
proof (cases "CHR ''@'' \<in> set s")
  case True
  then show ?thesis by (simp add: Split_at_step)
next
  case False
  then have "\<forall>c \<in> set s. not_at c"
    by (auto simp: not_at_def)
  then have eq: "takeWhile not_at s = s"
    by (rule takeWhile_eq_all_conv [THEN iffD2])
  show ?thesis unfolding Split_at_no_at [OF False] eq by blast
qed

lemma Split_at_second:
  "CHR ''@'' \<in> set s \<Longrightarrow>
   \<exists>rest. Split s ''@'' = takeWhile not_at s # domain_segment s # rest"
  using Split_at_hd [of "drop 1 (dropWhile not_at s)"]
  by (auto simp: Split_at_step domain_segment_def)

lemma GetEmailDomain_domain_segment:
  "GetEmailDomain e =
     (if domain_segment e = [] \<or> CHR ''@'' \<notin> set e
      then Inl (errors_New ''invalid email address'')
      else Inr (domain_segment e))"
proof (cases "CHR ''@'' \<in> set e")
  case True
  then obtain rest where "Split e ''@'' = takeWhile not_at e # domain_segment e # rest"
    using Split_at_second by blast
  with True show ?thesis
    by (simp add: GetEmailDomain_def Contains_def Index_at_None)
next
  case False
  then show ?thesis
    by (simp add: GetEmailDomain_def Contains_def Index_at_None)
qed

text \<open>
  C10. \<open>GetEmailDomain\<close> fails exactly when the address has no \<open>@\<close> or the segment
  between the first \<open>@\<close> and the following \<open>@\<close> (or the end of the string) is empty,
  and otherwise returns that segment. An empty local part is accepted
  (\<open>@x.com\<close> gives \<open>x.com\<close>), while \<open>a@\<close> and \<open>a@@b\<close> fail.
\<close>

theorem GetEmailDomain_segment:
  "GetEmailDomain email =
     (if domain_segment email = [] \<or> CHR ''@'' \<notin> set email
      then Inl (errors_New ''invalid email address'')
      else Inr (domain_segment email))
   \<and> GetEmailDomain ''@x.com'' = Inr ''x.com''
   \<and> GetEmailDomain ''a@'' = Inl (errors_New ''invalid email address'')
   \<and> GetEmailDomain ''a@@b'' = Inl (errors_New ''invalid email address'')"
proof -
  have "domain_segment ''@x.com'' = ''x.com''" "domain_segment ''a@'' = []"
    "domain_segment ''a@@b'' = []"
    by (simp_all add: domain_segment_def not_at_def)
  then show ?thesis by (simp add: GetEmailDomain_domain_segment)
qed

section \<open>Lookups by identifier\<close>

lemma find_in_set: "List.find P xs = Some x \<Longrightarrow> x \<in> set xs \<and> P x"
  by (induction xs) (auto split: if_splits)

lemma matches_shared_item_query:
  "matches (shared_item_query i now) d =
     (eq_match (d ''_id'') (BObjectID i) \<and> gte_match (d ''shared_until'') (BDateTime now)
      \<and> \<not> eq_match (d ''is_deleted'') (BBool True))"
  by (simp add: shared_item_query_def)

lemma ids_unique_eq_match:
  assumes "ids_unique coll" "d \<in> set coll"
  shows "eq_match (d ''_id'') (BObjectID i) = (oid_of (d ''_id'') = i)"
proof -
  from assms have "d ''_id'' = Some (BObjectID (oid_of (d ''_id'')))"
    by (simp add: ids_unique_def list_all_iff)
  then obtain j where j: "d ''_id'' = Some (BObjectID j)" by blast
  then show ?thesis by simp
qed

lemma ids_unique_same:
  assumes "ids_unique coll" "d \<in> set coll" "d' \<in> set coll"
    "oid_of (d ''_id'') = oid_of (d' ''_id'')"
  shows "d = d'"
proof -
  from assms(1) have "inj_on (\<lambda>d. oid_of (d ''_id'')) (set coll)"
    by (simp add: ids_unique_def distinct_map)
  with assms(2-4) show ?thesis by (simp add: inj_on_def)
qed

lemma find_by_id:
  assumes "ids_unique coll" "d \<in> set coll"
    "\<And>x. P x \<Longrightarrow> eq_match (x ''_id'') (BObjectID (oid_of (d ''_id'')))"
  shows "List.find P coll = (if P d then Some d else None)"
proof (cases "List.find P coll")
  case None
  then have "\<not> P d" using assms(2) by (simp add: find_None_iff)
  with None show ?thesis by simp
next
  case (Some x)
  then have x: "x \<in> set coll" "P x" using find_in_set [of P coll x] by simp_all
  from assms(3) [OF x(2)] have "oid_of (x ''_id'') = oid_of (d ''_id'')"
    using ids_unique_eq_match [OF assms(1) x(1)] by simp
  then have "x = d" using ids_unique_same [OF assms(1) x(1) assms(2)] by simp
  then show ?thesis using Some x by simp
qed

section \<open>Properties of the shared-item fetches\<close>

lemma shared_item_query_id:
  "matches (shared_item_query i now) x \<Longrightarrow> eq_match (x ''_id'') (BObjectID i)"
  by (simp add: shared_item_query_def)

lemma FindOne_shared_item:
  assumes "ids_unique coll" "d \<in> set coll"
  shows "FindOne coll (shared_item_query (ID_of d) now) =
           (if matches (shared_item_query (ID_of d) now) d then Some d else None)"
  unfolding FindOne_def ID_of_def
  by (rule find_by_id [OF assms]) (rule shared_item_query_id)

lemma expired_or_deleted_no_match:
  "expired_or_deleted now d \<Longrightarrow> \<not> matches (shared_item_query i now) d"
  by (auto simp: expired_or_deleted_def shared_item_query_def split: option.splits bval.splits)

lemma FindOne_shared_item_live:
  "FindOne coll (shared_item_query i now) = Some d \<Longrightarrow> \<not> expired_or_deleted now d"
  using find_in_set [of "matches (shared_item_query i now)" coll d] expired_or_deleted_no_match
  by (auto simp: FindOne_def)

lemma shared_fetch_result_live:
  "(GetSharedTask db now i userID = Inr t \<longrightarrow> \<not> expired_or_deleted now t)
   \<and> (GetSharedNote db now i = Inr t \<longrightarrow> \<not> expired_or_deleted now t)
   \<and> (GetSharedNoteWithAuth db now i uid = Inr t \<longrightarrow> \<not> expired_or_deleted now t)"
proof (intro conjI impI)
  assume "GetSharedTask db now i userID = Inr t"
  then have "FindOne (GetTaskCollection db) (shared_item_query i now) = Some t"
    by (auto simp: GetSharedTask_def Decode_def split: option.splits sum.splits if_splits)
  then show "\<not> expired_or_deleted now t" by (rule FindOne_shared_item_live)
next
  assume "GetSharedNote db now i = Inr t"
  then have "FindOne (GetNoteCollection db) (shared_item_query i now) = Some t"
    by (auto simp: GetSharedNote_def Decode_def split: option.splits sum.splits if_splits)
  then show "\<not> expired_or_deleted now t" by (rule FindOne_shared_item_live)
next
  assume "GetSharedNoteWithAuth db now i uid = Inr t"
  then have "FindOne (GetNoteCollection db) (shared_item_query i now) = Some t"
    by (auto simp: GetSharedNoteWithAuth_def Decode_def split: option.splits sum.splits if_splits)
  then show "\<not> expired_or_deleted now t" by (rule FindOne_shared_item_live)
qed


text \<open>
  C9. A shared task or note whose \<open>shared_until\<close> is earlier than the current time, or
  which is marked deleted, is never returned by \<open>GetSharedTask\<close>, \<open>GetSharedNote\<close>
  or \<open>GetSharedNoteWithAuth\<close>: fetching such an item by its identifier yields an
  error, whoever asks (the owner included), and whatever one of the three functions
  returns is neither out of its window nor deleted.
\<close>

theorem shared_fetch_refuses_expired_or_deleted:
  assumes "ids_unique (GetTaskCollection db)" and "ids_unique (GetNoteCollection db)"
    and "expired_or_deleted now item"
  shows "(item \<in> set (GetTaskCollection db) \<longrightarrow>
            GetSharedTask db now (ID_of item) userID = Inl ErrNoDocuments
            \<and> GetSharedTask db now (ID_of item) (Some (UserID_of item)) = Inl ErrNoDocuments)
       \<and> (item \<in> set (GetNoteCollection db) \<longrightarrow>
            GetSharedNote db now (ID_of item) = Inl ErrNoDocuments
            \<and> GetSharedNoteWithAuth db now (ID_of item) requester = Inl ErrNoDocuments
            \<and> GetSharedNoteWithAuth db now (ID_of item) (UserID_of item) = Inl ErrNoDocuments)
       \<and> GetSharedTask db now i userID \<noteq> Inr item
       \<and> GetSharedNote db now i \<noteq> Inr item
       \<and> GetSharedNoteWithAuth db now i requester \<noteq> Inr item"
  using assms shared_fetch_result_live [of db now i userID item requester]
  by (auto simp: GetSharedTask_def GetSharedNote_def GetSharedNoteWithAuth_def
        FindOne_shared_item expired_or_deleted_no_match Decode_def)

lemma SharedAccess_distinct:
  "SharedAccessPublic \<noteq> SharedAccessDomain"
  "SharedAccessPublic \<noteq> SharedAccessMeetingAttendees"
  "SharedAccessDomain \<noteq> SharedAccessMeetingAttendees"
  by (simp_all add: SharedAccessPublic_def SharedAccessDomain_def
        SharedAccessMeetingAttendees_def)

lemma FindOne_shared_item_found:
  assumes "ids_unique coll" "d \<in> set coll"
    "d ''shared_until'' = Some (BDateTime until)" "now \<le> until"
    "d ''is_deleted'' = None \<or> d ''is_deleted'' = Some (BBool False)"
  shows "FindOne coll (shared_item_query (ID_of d) now) = Some d"
proof -
  have "eq_match (d ''_id'') (BObjectID (ID_of d))"
    using ids_unique_eq_match [OF assms(1,2)] by (simp add: ID_of_def)
  then have "matches (shared_item_query (ID_of d) now) d"
    using assms(3-5) by (auto simp: shared_item_query_def)
  then show ?thesis using FindOne_shared_item [OF assms(1,2)] by simp
qed

text \<open>
  C7. For a shared task within its sharing window (and not deleted, which is what the
  lookup of \<open>GetSharedTask\<close> asks of a shared task), viewing it succeeds for every
  requester, logged in or not, when the mode is \<open>public\<close>; when the mode is
  \<open>domain\<close> it succeeds exactly for a logged-in requester whose email domain is the
  owner's, and every other requester gets an error, the one who is not logged in the
  error "user is not allowed to access this task".
\<close>

theorem GetSharedTask_public_and_domain:
  assumes "ids_unique (GetTaskCollection db)" and "task \<in> set (GetTaskCollection db)"
    and "task ''shared_until'' = Some (BDateTime until)" and "now \<le> until"
    and "task ''is_deleted'' = None \<or> task ''is_deleted'' = Some (BBool False)"
  shows "(SharedAccess_of task = Some SharedAccessPublic \<longrightarrow>
            GetSharedTask db now (ID_of task) userID = Inr task)
       \<and> (SharedAccess_of task = Some SharedAccessDomain \<longrightarrow>
            (GetSharedTask db now (ID_of task) userID = Inr task)
              = same_domain_requester db userID task
            \<and> (\<not> same_domain_requester db userID task \<longrightarrow>
                 (\<exists>err. GetSharedTask db now (ID_of task) userID = Inl err))
            \<and> GetSharedTask db now (ID_of task) None
                 = Inl (errors_New ''user is not allowed to access this task''))"
proof -
  have found: "Decode (FindOne (GetTaskCollection db) (shared_item_query (ID_of task) now)) = Inr task"
    using FindOne_shared_item_found [OF assms] by (simp add: Decode_def)
  show ?thesis
    using SharedAccess_distinct
    by (auto simp: GetSharedTask_def found same_domain_requester_def email_domain_of_user_def
          split: option.splits sum.splits)
qed


lemmas sharing_docs = user_ann_def user_bob_def user_eve_def task_public_def task_domain_def
  task_expired_def note_deleted_def

lemma sharing_db_unique:
  "ids_unique (GetTaskCollection sharing_db)" "ids_unique (GetNoteCollection sharing_db)"
  by (simp_all add: sharing_db_def GetTaskCollection_def GetNoteCollection_def ids_unique_def
        sharing_docs)

lemma sharing_db_users:
  "GetUser sharing_db 101 = Inr user_ann" "GetUser sharing_db 102 = Inr user_bob"
  "GetUser sharing_db 103 = Inr user_eve"
  by (simp_all add: GetUser_def sharing_db_def GetUserCollection_def FindOne_def Decode_def
        sharing_docs)

lemma sharing_db_domains:
  "email_domain_of_user sharing_db 101 = Some ''acme.io''"
  "email_domain_of_user sharing_db 102 = Some ''acme.io''"
  "email_domain_of_user sharing_db 103 = Some ''other.org''"
  by (simp_all add: email_domain_of_user_def sharing_db_users)
     (simp_all add: sharing_docs Email_of_def GetEmailDomain_domain_segment domain_segment_def not_at_def)

theorem shared_fetch_refuses_expired_or_deleted_witness:
  "expired_or_deleted 50 task_expired \<and> expired_or_deleted 50 note_deleted
   \<and> GetSharedTask sharing_db 50 12 (Some 101) = Inl ErrNoDocuments
   \<and> GetSharedTask sharing_db 50 12 None = Inl ErrNoDocuments
   \<and> GetSharedNote sharing_db 50 20 = Inl ErrNoDocuments
   \<and> GetSharedNoteWithAuth sharing_db 50 20 101 = Inl ErrNoDocuments"
proof -
  have e: "expired_or_deleted 50 task_expired" "expired_or_deleted 50 note_deleted"
    by (simp_all add: expired_or_deleted_def task_expired_def note_deleted_def)
  have m: "task_expired \<in> set (GetTaskCollection sharing_db)"
    "note_deleted \<in> set (GetNoteCollection sharing_db)"
    by (simp_all add: sharing_db_def GetTaskCollection_def GetNoteCollection_def)
  have i: "ID_of task_expired = 12" "UserID_of task_expired = 101" "ID_of note_deleted = 20"
    "UserID_of note_deleted = 101"
    by (simp_all add: ID_of_def UserID_of_def task_expired_def note_deleted_def)
  show ?thesis
    using shared_fetch_refuses_expired_or_deleted [OF sharing_db_unique e(1), of None 101 0]
      shared_fetch_refuses_expired_or_deleted [OF sharing_db_unique e(2), of None 101 0]
      e m i
    by simp
qed

theorem GetSharedTask_public_and_domain_witness:
  "GetSharedTask sharing_db 50 (ID_of task_domain) (Some 102) = Inr task_domain
   \<and> (\<exists>err. GetSharedTask sharing_db 50 (ID_of task_domain) (Some 103) = Inl err)
   \<and> GetSharedTask sharing_db 50 (ID_of task_domain) None
        = Inl (errors_New ''user is not allowed to access this task'')
   \<and> GetSharedTask sharing_db 50 (ID_of task_public) None = Inr task_public"
proof -
  have m: "task_domain \<in> set (GetTaskCollection sharing_db)"
    "task_public \<in> set (GetTaskCollection sharing_db)"
    by (simp_all add: sharing_db_def GetTaskCollection_def)
  have d: "task_domain ''shared_until'' = Some (BDateTime 100)"
    "task_domain ''is_deleted'' = None \<or> task_domain ''is_deleted'' = Some (BBool False)"
    "SharedAccess_of task_domain = Some SharedAccessDomain" "UserID_of task_domain = 101"
    by (simp_all add: task_domain_def SharedAccess_of_def UserID_of_def)
  have p: "task_public ''shared_until'' = Some (BDateTime 100)"
    "task_public ''is_deleted'' = None \<or> task_public ''is_deleted'' = Some (BBool False)"
    "SharedAccess_of task_public = Some SharedAccessPublic"
    by (simp_all add: task_public_def SharedAccess_of_def)
  have s: "same_domain_requester sharing_db (Some 102) task_domain"
    "\<not> same_domain_requester sharing_db (Some 103) task_domain"
    by (simp_all add: same_domain_requester_def d sharing_db_domains)
  have le: "(50::int) \<le> 100" by simp
  show ?thesis
    using GetSharedTask_public_and_domain [OF sharing_db_unique(1) m(1) d(1) le d(2), of "Some 102"]
      GetSharedTask_public_and_domain [OF sharing_db_unique(1) m(1) d(1) le d(2), of "Some 103"]
      GetSharedTask_public_and_domain [OF sharing_db_unique(1) m(2) p(1) le p(2), of None]
      d(3) p(3) s
    by simp
qed

section \<open>Properties of ReOrderTask\<close>

lemma ids_unique_Cons:
  "ids_unique (d # ds) =
     (oid_of (d ''_id'') \<notin> (\<lambda>x. oid_of (x ''_id'')) ` set ds
      \<and> d ''_id'' = Some (BObjectID (oid_of (d ''_id''))) \<and> ids_unique ds)"
  by (auto simp: ids_unique_def)

lemma update_first_unique:
  assumes "ids_unique c" "\<And>d. d \<in> set c \<Longrightarrow> matches q d \<Longrightarrow> oid_of (d ''_id'') = i"
  shows "update_first q u c = map (\<lambda>d. if matches q d then apply_update u d else d) c"
  using assms
proof (induction c)
  case Nil
  then show ?case by simp
next
  case (Cons d ds)
  show ?case
  proof (cases "matches q d")
    case True
    then have i: "oid_of (d ''_id'') = i" using Cons.prems(2) by simp
    have "\<not> matches q x" if "x \<in> set ds" for x
    proof
      assume "matches q x"
      then have "oid_of (x ''_id'') = i" using Cons.prems(2) that by simp
      with i that Cons.prems(1) show False by (auto simp: ids_unique_Cons)
    qed
    then have "map (\<lambda>d. if matches q d then apply_update u d else d) ds = ds"
      by (simp add: map_idI)
    with True show ?thesis by simp
  next
    case False
    have "update_first q u ds = map (\<lambda>d. if matches q d then apply_update u d else d) ds"
      using Cons.IH Cons.prems by (simp add: ids_unique_Cons)
    with False show ?thesis by simp
  qed
qed

lemma UpdateOne_unique:
  assumes "ids_unique c" "\<And>d. d \<in> set c \<Longrightarrow> matches q d \<Longrightarrow> oid_of (d ''_id'') = i"
  shows "snd (UpdateOne c q u) = map (\<lambda>d. if matches q d then apply_update u d else d) c"
proof (cases "list_ex (matches q) c")
  case True
  then show ?thesis using update_first_unique [of c q i u] assms by (simp add: UpdateOne_def)
next
  case False
  then have "map (\<lambda>d. if matches q d then apply_update u d else d) c = c"
    by (simp add: map_idI list_ex_iff)
  with False show ?thesis by (simp add: UpdateOne_def)
qed













lemma ids_unique_map:
  assumes "ids_unique c" "\<And>d. d \<in> set c \<Longrightarrow> h d ''_id'' = d ''_id''"
  shows "ids_unique (map h c)"
proof -
  have e: "map (\<lambda>d. oid_of (d ''_id'')) (map h c) = map (\<lambda>d. oid_of (d ''_id'')) c"
    by (rule nth_equalityI) (simp_all add: assms(2))
  have l: "list_all (\<lambda>d. d ''_id'' = Some (BObjectID (oid_of (d ''_id'')))) (map h c)"
    using assms by (simp add: ids_unique_def list_all_iff)
  from assms(1) have d: "distinct (map (\<lambda>d. oid_of (d ''_id'')) c)"
    by (simp add: ids_unique_def)
  show ?thesis unfolding ids_unique_def e using d l by (rule conjI)
qed




lemma set_Find_sorted: "set (Find_sorted c q f) = {d \<in> set c. matches q d}"
  by (auto simp: Find_sorted_def Let_def)


lemmas reorder_docs = task_a_def task_b_def task_c_def task_of_bob_def




section \<open>Properties of the renumbering\<close>

lemma index_of_None: "(index_of x xs = None) = (x \<notin> set xs)"
  by (induction xs) auto

lemma index_of_nth: "distinct xs \<Longrightarrow> i < length xs \<Longrightarrow> index_of (xs ! i) xs = Some i"
proof (induction xs arbitrary: i)
  case Nil
  then show ?case by simp
next
  case (Cons y ys)
  show ?case
  proof (cases i)
    case 0
    then show ?thesis by simp
  next
    case (Suc j)
    with Cons.prems have "ys ! j \<noteq> y" "index_of (ys ! j) ys = Some j"
      using Cons.IH [of j] by auto
    with Suc show ?thesis by simp
  qed
qed

lemma renumbered_from_id: "renumbered_from n its d ''_id'' = d ''_id''"
  by (simp add: renumbered_from_def split: option.splits)

lemma renumbered_from_other:
  "f \<noteq> ''id_ordering'' \<Longrightarrow> renumbered_from n its d f = d f"
  by (simp add: renumbered_from_def split: option.splits)

lemma ID_of_upd: "ID_of (d(''id_ordering'' \<mapsto> v)) = ID_of d"
  by (simp add: ID_of_def)

lemma normalize_ordering_ids_map:
  assumes "ids_unique c" "distinct (map ID_of its)" "set its \<subseteq> set c"
    "\<And>x. x \<in> set its \<Longrightarrow> matches (QEq ''user_id'' (BObjectID userID)) x"
  shows "normalize_ordering_ids c userID n its = map (renumbered_from n its) c"
  using assms
proof (induction its arbitrary: c n)
  case Nil
  show ?case by (simp add: renumbered_from_def map_idI)
next
  case (Cons item its)
  let ?q = "QAnd [QEq ''_id'' (BObjectID (ID_of item)), QEq ''user_id'' (BObjectID userID)]"
  let ?u = "USet [''id_ordering'' \<mapsto> BInt (int n + 1)]"
  let ?g = "\<lambda>d. if ID_of d = ID_of item then d(''id_ordering'' \<mapsto> BInt (int n + 1)) else d"
  let ?c1 = "if IDOrdering_of item \<noteq> int n + 1 then snd (UpdateOne c ?q ?u) else c"
  have item: "item \<in> set c" "matches (QEq ''user_id'' (BObjectID userID)) item"
    using Cons.prems(3,4) by simp_all
  have typed: "d ''_id'' = Some (BObjectID (ID_of d))" if "d \<in> set c" for d
    using Cons.prems(1) that by (simp add: ids_unique_def list_all_iff ID_of_def)
  have same: "d = item" if "d \<in> set c" "ID_of d = ID_of item" for d
    using that(2) by (intro ids_unique_same [OF Cons.prems(1) that(1) item(1)])
      (simp add: ID_of_def)
  have m: "matches ?q d = (ID_of d = ID_of item)" if "d \<in> set c" for d
  proof (cases "ID_of d = ID_of item")
    case True
    then have "d = item" using same that by blast
    with item(2) typed [OF item(1)] show ?thesis by simp
  next
    case False
    with typed [OF that] show ?thesis by simp
  qed
  have one: "oid_of (d ''_id'') = ID_of item" if "d \<in> set c" "matches ?q d" for d
    using m [OF that(1)] that(2) by (simp add: ID_of_def del: matches.simps)
  have upd: "snd (UpdateOne c ?q ?u) = map (\<lambda>d. if matches ?q d then apply_update ?u d else d) c"
    by (rule UpdateOne_unique [of c ?q "ID_of item" ?u, OF Cons.prems(1)]) (rule one, assumption+)
  have upd': "snd (UpdateOne c ?q ?u) = map ?g c"
    unfolding upd by (rule map_cong [OF refl]) (simp add: m del: matches.simps)
  have skip: "map ?g c = c" if "IDOrdering_of item = int n + 1"
  proof (rule map_idI)
    fix d assume d: "d \<in> set c"
    show "?g d = d"
    proof (cases "ID_of d = ID_of item")
      case True
      then have e: "d = item" using same d by blast
      from that have "item ''id_ordering'' = Some (BInt (int n + 1))"
        by (cases "item ''id_ordering''"; cases "the (item ''id_ordering'')")
           (auto simp: IDOrdering_of_def)
      then show ?thesis using e by (simp add: fun_upd_idem)
    next
      case False
      then show ?thesis by simp
    qed
  qed
  have c1: "?c1 = map ?g c" using upd' skip by simp
  have gid: "?g d ''_id'' = d ''_id''" for d by simp
  have u1: "ids_unique (map ?g c)" by (rule ids_unique_map [OF Cons.prems(1)]) (rule gid)
  have notin: "ID_of item \<notin> ID_of ` set its" using Cons.prems(2) by simp
  have keep: "?g x = x" if "x \<in> set its" for x
  proof -
    from that have "ID_of x \<in> ID_of ` set its" by (rule imageI)
    with notin have "ID_of x \<noteq> ID_of item" by metis
    then show ?thesis by simp
  qed
  have sub: "set its \<subseteq> set (map ?g c)"
  proof
    fix x assume x: "x \<in> set its"
    then have "x \<in> set c" using Cons.prems(3) by auto
    then have "?g x \<in> set (map ?g c)" by (simp del: fun_upd_apply)
    with keep [OF x] show "x \<in> set (map ?g c)" by simp
  qed
  have ih: "normalize_ordering_ids (map ?g c) userID (Suc n) its
              = map (renumbered_from (Suc n) its) (map ?g c)"
    using Cons.IH [OF u1 _ sub, of "Suc n"] Cons.prems(2,4) by simp
  have step: "renumbered_from (Suc n) its (?g d) = renumbered_from n (item # its) d" for d
  proof (cases "ID_of d = ID_of item")
    case True
    then have "index_of (ID_of d) (map ID_of its) = None"
      using notin by (simp add: index_of_None)
    with True show ?thesis by (simp add: renumbered_from_def ID_of_upd)
  next
    case False
    then show ?thesis by (simp add: renumbered_from_def split: option.splits)
  qed
  show ?case
    unfolding normalize_ordering_ids.simps Let_def c1 ih map_map
    by (rule map_cong [OF refl]) (simp add: step del: fun_upd_apply)
qed


lemma mset_filter_partition:
  "mset (filter P xs) + mset (filter (\<lambda>x. \<not> P x) xs) = mset xs"
  by (induction xs) auto

lemma mset_Find_sorted: "mset (Find_sorted c q f) = mset (filter (matches q) c)"
  unfolding Find_sorted_def Let_def
  using mset_filter_partition [of "\<lambda>d. int_of (d f) = None" "filter (matches q) c"]
  by (simp del: matches.simps)

lemma user_items_sorted_facts:
  assumes "ids_unique c"
  shows "set (user_items_sorted c u) \<subseteq> set c"
    and "\<And>x. x \<in> set (user_items_sorted c u) \<Longrightarrow> matches (QEq ''user_id'' (BObjectID u)) x"
    and "distinct (map ID_of (user_items_sorted c u))"
proof -
  let ?q = "QEq ''user_id'' (BObjectID u)"
  have s: "set (user_items_sorted c u) = {d \<in> set c. matches ?q d}"
    by (simp add: user_items_sorted_def set_Find_sorted del: matches.simps)
  show "set (user_items_sorted c u) \<subseteq> set c" using s by blast
  show "\<And>x. x \<in> set (user_items_sorted c u) \<Longrightarrow> matches ?q x" using s by blast
  have "distinct (map ID_of c)"
    using assms by (simp add: ids_unique_def ID_of_def [abs_def])
  then have "distinct (map ID_of (filter (matches ?q) c))"
    by (rule distinct_map_filter)
  moreover have "mset (map ID_of (user_items_sorted c u)) = mset (map ID_of (filter (matches ?q) c))"
    by (simp add: user_items_sorted_def mset_Find_sorted del: matches.simps)
  ultimately show "distinct (map ID_of (user_items_sorted c u))"
    using mset_eq_imp_distinct_iff by blast
qed

lemma normalize_user_items:
  assumes "ids_unique c"
  shows "normalize_ordering_ids c u 0 (user_items_sorted c u)
         = map (renumbered (user_items_sorted c u)) c"
  unfolding renumbered_def [abs_def]
  by (rule normalize_ordering_ids_map [OF assms user_items_sorted_facts(3) [OF assms]
        user_items_sorted_facts(1) [OF assms] user_items_sorted_facts(2) [OF assms]])

lemma renumbered_nth:
  assumes "distinct (map ID_of its)" "i < length its"
  shows "renumbered its (its ! i) = (its ! i)(''id_ordering'' \<mapsto> BInt (int i + 1))"
proof -
  have "index_of (ID_of (its ! i)) (map ID_of its) = Some i"
    using index_of_nth [OF assms(1), of i] assms(2) by simp
  then show ?thesis by (simp add: renumbered_def renumbered_from_def)
qed

lemma renumbered_orderings:
  assumes "distinct (map ID_of its)"
  shows "map IDOrdering_of (map (renumbered its) its) = consecutive_from_one (length its)"
    and "map (\<lambda>d. the (int_of (d ''id_ordering''))) (map (renumbered its) its)
           = consecutive_from_one (length its)"
    and "map ID_of (map (renumbered its) its) = map ID_of its"
  by (rule nth_equalityI;
      simp add: consecutive_from_one_def renumbered_nth [OF assms] IDOrdering_of_def ID_of_def)+


lemma consecutive_from_one_sorted:
  "sorted (consecutive_from_one n)" "distinct (consecutive_from_one n)"
  "length (consecutive_from_one n) = n"
  by (simp_all add: consecutive_from_one_def sorted_iff_nth_mono distinct_map inj_on_def)

lemma matches_user_renumbered:
  "matches (QEq ''user_id'' v) (renumbered its d) = matches (QEq ''user_id'' v) d"
  by (simp add: renumbered_def renumbered_from_other)

lemma user_items_after:
  assumes "ids_unique c"
  shows "user_items_sorted (map (renumbered (user_items_sorted c u)) c) u
         = map (renumbered (user_items_sorted c u)) (user_items_sorted c u)"
proof -
  let ?its = "user_items_sorted c u"
  let ?r = "renumbered ?its"
  let ?q = "QEq ''user_id'' (BObjectID u)"
  let ?F = "filter (matches ?q) c"
  let ?key = "\<lambda>d. the (int_of (d ''id_ordering''))"
  note facts = user_items_sorted_facts [OF assms, where u = u]
  have ms: "mset ?its = mset ?F"
    by (simp add: user_items_sorted_def mset_Find_sorted del: matches.simps)
  have a: "filter (matches ?q) (map ?r c) = map ?r ?F"
    unfolding filter_map comp_def matches_user_renumbered ..
  have b: "int_of (?r d ''id_ordering'') \<noteq> None" if "d \<in> set ?F" for d
  proof -
    from that ms have "d \<in> set ?its" using mset_eq_setD by blast
    then have "index_of (ID_of d) (map ID_of ?its) \<noteq> None"
      by (simp add: index_of_None)
    then show ?thesis by (auto simp: renumbered_def renumbered_from_def)
  qed
  have c1: "filter (\<lambda>d. int_of (d ''id_ordering'') = None) (map ?r ?F) = []"
    using b by (simp add: filter_empty_conv del: matches.simps)
  have c2: "filter (\<lambda>d. int_of (d ''id_ordering'') \<noteq> None) (map ?r ?F) = map ?r ?F"
    using b by (simp add: filter_id_conv del: matches.simps)
  have m2: "mset (map ?r ?F) = mset (map ?r ?its)" using ms by simp
  have keys: "map ?key (map ?r ?its) = consecutive_from_one (length ?its)"
    by (rule renumbered_orderings(2) [OF facts(3)])
  have srt: "sorted (map ?key (map ?r ?its))"
    unfolding keys by (rule consecutive_from_one_sorted)
  have "distinct (map ?key (map ?r ?its))"
    unfolding keys by (rule consecutive_from_one_sorted)
  then have "inj_on ?key (set (map ?r ?its))" by (simp only: distinct_map)
  moreover have "set (map ?r ?F) = set (map ?r ?its)" using m2 by (rule mset_eq_setD)
  ultimately have inj: "inj_on ?key (set (map ?r ?F))" by simp
  have d: "sort_key ?key (map ?r ?F) = map ?r ?its"
    by (rule sort_key_inj_key_eq [OF m2 inj srt])
  show ?thesis
    unfolding user_items_sorted_def [of "map ?r c"] Find_sorted_def Let_def a c1 c2 d by simp
qed


lemma index_of_Some: "index_of x xs = Some i \<Longrightarrow> i < length xs \<and> xs ! i = x"
proof (induction xs arbitrary: i)
  case Nil
  then show ?case by simp
next
  case (Cons y ys)
  then show ?case by (cases "x = y") auto
qed

lemma IDOrdering_of_positive:
  "IDOrdering_of d = n \<Longrightarrow> n \<noteq> 0 \<Longrightarrow> d ''id_ordering'' = Some (BInt n)"
  by (cases "d ''id_ordering''"; cases "the (d ''id_ordering'')")
     (auto simp: IDOrdering_of_def)

lemma renumbered_not_item:
  assumes "ids_unique c" "d \<in> set c" "d \<notin> set (user_items_sorted c u)"
  shows "renumbered (user_items_sorted c u) d = d"
proof -
  let ?its = "user_items_sorted c u"
  have "ID_of d \<notin> set (map ID_of ?its)"
  proof
    assume "ID_of d \<in> set (map ID_of ?its)"
    then obtain x where x: "x \<in> set ?its" "ID_of x = ID_of d" by auto
    then have "x \<in> set c" using user_items_sorted_facts(1) [OF assms(1)] by blast
    then have "x = d"
      using x(2) by (intro ids_unique_same [OF assms(1) _ assms(2)]) (simp_all add: ID_of_def)
    with x(1) assms(3) show False by simp
  qed
  then have "index_of (ID_of d) (map ID_of ?its) = None"
    by (rule index_of_None [THEN iffD2])
  then show ?thesis by (simp add: renumbered_def renumbered_from_def)
qed

lemma renumbered_already:
  assumes "ids_unique c"
    and "map IDOrdering_of (user_items_sorted c u)
           = consecutive_from_one (length (user_items_sorted c u))"
  shows "map (renumbered (user_items_sorted c u)) c = c"
proof (rule map_idI)
  let ?its = "user_items_sorted c u"
  fix d assume d: "d \<in> set c"
  show "renumbered ?its d = d"
  proof (cases "d \<in> set ?its")
    case False
    then show ?thesis by (rule renumbered_not_item [OF assms(1) d])
  next
    case True
    then obtain i where i: "i < length ?its" "?its ! i = d" by (auto simp: in_set_conv_nth)
    have "IDOrdering_of d = int i + 1"
      using arg_cong [OF assms(2), of "\<lambda>xs. xs ! i"] i
      by (simp add: consecutive_from_one_def)
    then have "d ''id_ordering'' = Some (BInt (int i + 1))"
      by (rule IDOrdering_of_positive) simp
    then show ?thesis
      using renumbered_nth [OF user_items_sorted_facts(3) [OF assms(1)] i(1)] i(2)
      by (simp add: fun_upd_idem)
  qed
qed

lemma renumbered_unique: "ids_unique c \<Longrightarrow> ids_unique (map (renumbered its) c)"
  by (rule ids_unique_map) (simp_all add: renumbered_def renumbered_from_id)

lemma normalize_twice:
  assumes "ids_unique c"
  shows "normalize_ordering_ids (normalize_ordering_ids c u 0 (user_items_sorted c u)) u 0
           (user_items_sorted (normalize_ordering_ids c u 0 (user_items_sorted c u)) u)
         = normalize_ordering_ids c u 0 (user_items_sorted c u)"
proof -
  let ?its = "user_items_sorted c u"
  let ?c' = "map (renumbered ?its) c"
  have u': "ids_unique ?c'" by (rule renumbered_unique [OF assms])
  have "map IDOrdering_of (user_items_sorted ?c' u)
          = consecutive_from_one (length (user_items_sorted ?c' u))"
    unfolding user_items_after [OF assms]
    using renumbered_orderings(1) [OF user_items_sorted_facts(3) [OF assms], of u] by simp
  then have "map (renumbered (user_items_sorted ?c' u)) ?c' = ?c'"
    by (rule renumbered_already [OF u'])
  then show ?thesis
    unfolding normalize_user_items [OF assms] normalize_user_items [OF u'] .
qed


lemma UpdateMany_inc_unique:
  assumes "ids_unique c"
  shows "ids_unique (UpdateMany c q (UInc ''id_ordering'' n))"
  unfolding UpdateMany_def
  by (rule ids_unique_map [OF assms]) (simp split: option.splits bval.splits)

lemma normalize_consecutive:
  assumes "ids_unique c"
  shows "map ID_of (user_items_sorted (normalize_ordering_ids c u 0 (user_items_sorted c u)) u)
           = map ID_of (user_items_sorted c u)"
    and "map IDOrdering_of
           (user_items_sorted (normalize_ordering_ids c u 0 (user_items_sorted c u)) u)
           = consecutive_from_one (length (user_items_sorted c u))"
  unfolding normalize_user_items [OF assms] user_items_after [OF assms]
  by (rule renumbered_orderings [OF user_items_sorted_facts(3) [OF assms]])+

text \<open>
  C2. The renumbering pass (the normalizing loop of \<open>AdjustOrderingIDsForCollection\<close>)
  gives the user's items, taken in ascending \<open>id_ordering\<close> order, the consecutive
  values 1..n: the item at index \<open>i\<close> gets \<open>i + 1\<close> and every other document stays
  as it is; read again in ascending order afterwards the items come in the same order
  with the values 1..n. It is idempotent: on items already numbered 1..n it changes
  nothing, and running it a second time changes nothing. The whole of
  \<open>AdjustOrderingIDsForCollection\<close> leaves the user's items numbered 1..n.
\<close>

theorem renumbering_consecutive_and_idempotent:
  assumes "ids_unique c"
  shows "normalize_ordering_ids c u 0 (user_items_sorted c u)
           = map (renumbered (user_items_sorted c u)) c
       \<and> map ID_of (user_items_sorted (normalize_ordering_ids c u 0 (user_items_sorted c u)) u)
           = map ID_of (user_items_sorted c u)
       \<and> map IDOrdering_of
           (user_items_sorted (normalize_ordering_ids c u 0 (user_items_sorted c u)) u)
           = consecutive_from_one (length (user_items_sorted c u))
       \<and> (map IDOrdering_of (user_items_sorted c u)
             = consecutive_from_one (length (user_items_sorted c u))
           \<longrightarrow> normalize_ordering_ids c u 0 (user_items_sorted c u) = c)
       \<and> normalize_ordering_ids (normalize_ordering_ids c u 0 (user_items_sorted c u)) u 0
           (user_items_sorted (normalize_ordering_ids c u 0 (user_items_sorted c u)) u)
           = normalize_ordering_ids c u 0 (user_items_sorted c u)
       \<and> map IDOrdering_of (user_items_sorted (AdjustOrderingIDsForCollection c u itemID k) u)
           = consecutive_from_one
               (length (user_items_sorted (AdjustOrderingIDsForCollection c u itemID k) u))"
proof -
  let ?moved = "UpdateMany c (QAnd [QNe ''_id'' (BObjectID itemID),
      QEq ''user_id'' (BObjectID u), QGte ''id_ordering'' (BInt k)]) (UInc ''id_ordering'' 1)"
  have um: "ids_unique ?moved" by (rule UpdateMany_inc_unique [OF assms])
  have adj: "AdjustOrderingIDsForCollection c u itemID k
               = normalize_ordering_ids ?moved u 0 (user_items_sorted ?moved u)"
    by (simp add: AdjustOrderingIDsForCollection_def Let_def)
  have "map IDOrdering_of (user_items_sorted (AdjustOrderingIDsForCollection c u itemID k) u)
          = consecutive_from_one (length (user_items_sorted ?moved u))"
    unfolding adj by (rule normalize_consecutive(2) [OF um])
  moreover have "length (user_items_sorted (AdjustOrderingIDsForCollection c u itemID k) u)
          = length (user_items_sorted ?moved u)"
    unfolding adj using arg_cong [OF normalize_consecutive(1) [OF um, of u], of length] by simp
  ultimately have last: "map IDOrdering_of
        (user_items_sorted (AdjustOrderingIDsForCollection c u itemID k) u)
      = consecutive_from_one
          (length (user_items_sorted (AdjustOrderingIDsForCollection c u itemID k) u))"
    by simp
  have idem: "map IDOrdering_of (user_items_sorted c u)
        = consecutive_from_one (length (user_items_sorted c u))
      \<longrightarrow> normalize_ordering_ids c u 0 (user_items_sorted c u) = c"
    unfolding normalize_user_items [OF assms] using renumbered_already [OF assms] by blast
  show ?thesis
    using normalize_user_items [OF assms, of u] normalize_consecutive [OF assms, of u]
      idem normalize_twice [OF assms, of u] last
    by (intro conjI)
qed

lemmas view_docs = view_1_def view_2_def view_3_def view_4_def

lemma view_collection_unique: "ids_unique view_collection"
  by (simp add: view_collection_def ids_unique_def view_docs)

lemma view_collection_items:
  "user_items_sorted view_collection 101 = [view_2, view_1, view_4]"
  by (simp add: view_collection_def user_items_sorted_def Find_sorted_def view_docs)

lemma view_collection_renumbered:
  "map IDOrdering_of (map (renumbered [view_2, view_1, view_4]) view_collection) = [2, 1, 7, 3]"
  by (simp add: view_collection_def renumbered_def renumbered_from_def ID_of_def
        IDOrdering_of_def view_docs)

theorem renumbering_consecutive_and_idempotent_witness:
  "map ID_of (user_items_sorted view_collection 101) = [41, 40, 43]
   \<and> map IDOrdering_of (user_items_sorted view_collection 101) = [2, 5, 9]
   \<and> map IDOrdering_of
        (normalize_ordering_ids view_collection 101 0 (user_items_sorted view_collection 101))
      = [2, 1, 7, 3]
   \<and> map ID_of (user_items_sorted
        (normalize_ordering_ids view_collection 101 0 (user_items_sorted view_collection 101)) 101)
      = [41, 40, 43]
   \<and> map IDOrdering_of (user_items_sorted
        (normalize_ordering_ids view_collection 101 0 (user_items_sorted view_collection 101)) 101)
      = [1, 2, 3]"
proof -
  note t = renumbering_consecutive_and_idempotent [OF view_collection_unique, of 101 0 0]
  have i: "map ID_of (user_items_sorted view_collection 101) = [41, 40, 43]"
    "map IDOrdering_of (user_items_sorted view_collection 101) = [2, 5, 9]"
    by (simp_all add: view_collection_items ID_of_def IDOrdering_of_def view_docs)
  have c: "consecutive_from_one (length (user_items_sorted view_collection 101)) = [1, 2, 3]"
    by (simp add: view_collection_items consecutive_from_one_def upt_rec)
  from t have "normalize_ordering_ids view_collection 101 0 (user_items_sorted view_collection 101)
      = map (renumbered (user_items_sorted view_collection 101)) view_collection"
    by (rule conjunct1)
  then have r: "map IDOrdering_of
      (normalize_ordering_ids view_collection 101 0 (user_items_sorted view_collection 101))
      = [2, 1, 7, 3]"
    using view_collection_renumbered by (simp only: view_collection_items)
  from t have t2: "map ID_of (user_items_sorted
        (normalize_ordering_ids view_collection 101 0 (user_items_sorted view_collection 101)) 101)
      = map ID_of (user_items_sorted view_collection 101)"
    by (elim conjE)
  from t have t3: "map IDOrdering_of (user_items_sorted
        (normalize_ordering_ids view_collection 101 0 (user_items_sorted view_collection 101)) 101)
      = consecutive_from_one (length (user_items_sorted view_collection 101))"
    by (elim conjE)
  show ?thesis
    by (intro conjI) (rule i(1), rule i(2), rule r, rule trans [OF t2 i(1)], rule trans [OF t3 c])
qed

section \<open>The outcome of ReOrderTask\<close>



















lemma reordered_example_gap:
  "map IDOrdering_of (map (reordered 30 101 5 None task_a) (GetTaskCollection reorder_db))
     = [5, 2, 3, 3]"
  by (simp add: reorder_db_def GetTaskCollection_def reordered_def in_reorder_scope_def
        reorder_section_def ID_of_def IDOrdering_of_def ParentTaskID_of_def IDTaskSection_of_def
        NilObjectID_def reorder_docs)



section \<open>Properties of the reconciliation\<close>























lemma find_new_record:
  assumes "\<And>d. d \<in> set c \<Longrightarrow> \<not> has_keys u e s d" "has_keys u e s n"
  shows "List.find (has_keys u e s) (c @ [n]) = Some n"
  using assms by (induction c) auto

















end
